theory Spec2Isabelle
  imports Complex_Main
begin

section \<open>The distribution of cabinets over ports and circuits\<close>

subsection \<open>Balanced assignment of cabinets to groups\<close>

text \<open>
  \<^verbatim>\<open>generateAssignments\<close> of \<^verbatim>\<open>components/Visualizer.tsx\<close>:
  \<^verbatim>\<open>
  const assignments = new Array(totalItems).fill(0);
  let currentItem = 0;
  const baseSize = Math.floor(totalItems / groupCount);
  const remainder = totalItems % groupCount;
  for (let i = 0; i < groupCount; i++) {
    const count = i < remainder ? baseSize + 1 : baseSize;
    for (let j = 0; j < count; j++) {
      if (currentItem < totalItems) { assignments[currentItem++] = i; }
    }
  }
  return assignments;
  \<close>
  Item and group counts are natural numbers (cabinet, port and circuit counts). The
  mutable pair of the array and \<^verbatim>\<open>currentItem\<close> is passed through both loops.
  The write \<^verbatim>\<open>assignments[currentItem]\<close> is guarded by
  \<^verbatim>\<open>currentItem < totalItems\<close>, so it never extends the array and
  \<open>list_update\<close> is the same operation. With \<^verbatim>\<open>groupCount = 0\<close> the
  outer loop body never runs and the values of \<^verbatim>\<open>baseSize\<close> and
  \<^verbatim>\<open>remainder\<close> are not used. The engine's limit on array lengths is a
  resource bound and is not part of the model.
\<close>

function inner_loop :: "nat \<Rightarrow> nat \<Rightarrow> nat \<Rightarrow> nat \<Rightarrow> nat list \<times> nat \<Rightarrow> nat list \<times> nat" where
  "inner_loop totalItems i count j (assignments, currentItem) =
     (if j < count
      then inner_loop totalItems i count (Suc j)
             (if currentItem < totalItems
              then (assignments[currentItem := i], Suc currentItem)
              else (assignments, currentItem))
      else (assignments, currentItem))"
  by pat_completeness auto
termination
  by (relation "measure (\<lambda>(totalItems, i, count, j, st). count - j)") auto

function outer_loop :: "nat \<Rightarrow> nat \<Rightarrow> nat \<Rightarrow> nat \<Rightarrow> nat \<Rightarrow> nat list \<times> nat \<Rightarrow> nat list \<times> nat" where
  "outer_loop totalItems groupCount baseSize remainder i st =
     (if i < groupCount
      then outer_loop totalItems groupCount baseSize remainder (Suc i)
             (inner_loop totalItems i (if i < remainder then baseSize + 1 else baseSize) 0 st)
      else st)"
  by pat_completeness auto
termination
  by (relation "measure (\<lambda>(totalItems, groupCount, baseSize, remainder, i, st). groupCount - i)") auto

definition generateAssignments :: "nat \<Rightarrow> nat \<Rightarrow> nat list" where
  "generateAssignments totalItems groupCount =
     fst (outer_loop totalItems groupCount (totalItems div groupCount) (totalItems mod groupCount) 0
            (replicate totalItems 0, 0))"

text \<open>
  The closed form the loops are compared with: group \<open>k\<close> holds
  \<open>groupSize totalItems groupCount k\<close> items, and after the first \<open>i\<close> groups
  the filled prefix of the array is \<open>filled totalItems groupCount i\<close>.
\<close>

definition groupSize :: "nat \<Rightarrow> nat \<Rightarrow> nat \<Rightarrow> nat" where
  "groupSize totalItems groupCount k =
     (if k < totalItems mod groupCount then totalItems div groupCount + 1
      else totalItems div groupCount)"

definition filled :: "nat \<Rightarrow> nat \<Rightarrow> nat \<Rightarrow> nat list" where
  "filled totalItems groupCount i =
     concat (map (\<lambda>k. replicate (groupSize totalItems groupCount k) k) [0..<i])"

subsection \<open>Snake order and the grid cells\<close>

text \<open>
  The cell loop of \<^verbatim>\<open>gridData\<close>:
  \<^verbatim>\<open>
  for (let y = 0; y < cabinetsHeight; y++) {
    for (let x = 0; x < cabinetsWidth; x++) {
      let snakeIndex;
      if (x % 2 === 0) { snakeIndex = (x * cabinetsHeight) + y; }
      else { snakeIndex = (x * cabinetsHeight) + (cabinetsHeight - 1 - y); }
      cells.push({ x, y, snakeIndex,
                   portId: portAssignments[snakeIndex],
                   circuitId: circuitAssignments[snakeIndex] });
    }
  }
  \<close>
  The loop counters satisfy \<^verbatim>\<open>y < cabinetsHeight\<close>, so the subtraction
  \<^verbatim>\<open>cabinetsHeight - 1 - y\<close> never goes below zero and natural numbers hold it.
  Reading an array outside its range gives \<^verbatim>\<open>undefined\<close> in JavaScript; the
  lookup returns \<open>None\<close> there. Each loop pushes one cell per iteration in counter
  order, which is a map over the range of the counter. The fields of a cell carry the
  prefix \<open>cell_\<close>.
\<close>

definition snakeIndex :: "nat \<Rightarrow> nat \<Rightarrow> nat \<Rightarrow> nat" where
  "snakeIndex x y cabinetsHeight =
     (if x mod 2 = 0 then (x * cabinetsHeight) + y
      else (x * cabinetsHeight) + (cabinetsHeight - 1 - y))"

definition lookup :: "nat list \<Rightarrow> nat \<Rightarrow> nat option" where
  "lookup assignments i = (if i < length assignments then Some (assignments ! i) else None)"

record CabinetCell =
  cell_x :: nat
  cell_y :: nat
  cell_snakeIndex :: nat
  cell_portId :: "nat option"
  cell_circuitId :: "nat option"

definition gridData :: "nat \<Rightarrow> nat \<Rightarrow> nat \<Rightarrow> nat \<Rightarrow> nat \<Rightarrow> CabinetCell list" where
  "gridData cabinetsWidth cabinetsHeight totalCabinets lanPorts circuits220v =
     (let portAssignments = generateAssignments totalCabinets lanPorts;
          circuitAssignments = generateAssignments totalCabinets circuits220v
      in concat (map (\<lambda>y. map (\<lambda>x.
           \<lparr>cell_x = x, cell_y = y,
            cell_snakeIndex = snakeIndex x y cabinetsHeight,
            cell_portId = lookup portAssignments (snakeIndex x y cabinetsHeight),
            cell_circuitId = lookup circuitAssignments (snakeIndex x y cabinetsHeight)\<rparr>)
           [0..<cabinetsWidth]) [0..<cabinetsHeight]))"

subsection \<open>Grouping circuits into distribution blocks\<close>

text \<open>
  \<^verbatim>\<open>Array.prototype.find\<close> returns the first element satisfying the predicate or
  \<^verbatim>\<open>undefined\<close>; \<^verbatim>\<open>a || b\<close> is \<^verbatim>\<open>b\<close> when
  \<^verbatim>\<open>a\<close> is \<^verbatim>\<open>undefined\<close> or the number zero.
  \<^verbatim>\<open>xs.slice(a, b)\<close> with \<^verbatim>\<open>0 <= a <= b\<close> keeps the elements at
  positions \<^verbatim>\<open>a\<close> up to \<^verbatim>\<open>b - 1\<close> that exist.
\<close>

definition js_or :: "rat option \<Rightarrow> rat \<Rightarrow> rat" where
  "js_or a b = (case a of None \<Rightarrow> b | Some s \<Rightarrow> if s = 0 then b else s)"

definition slice :: "'a list \<Rightarrow> nat \<Rightarrow> nat \<Rightarrow> 'a list" where
  "slice xs a b = take (b - a) (drop a xs)"

text \<open>
  The amperages of the circuits are JavaScript numbers, IEEE doubles: every sum and
  product of them is rounded, and they may be infinite or NaN. The grouping uses three
  operations on them, \<^verbatim>\<open>+\<close>, \<^verbatim>\<open>*\<close> and \<^verbatim>\<open>>=\<close>, and
  numeric literals. These are a parameter of the model: an arithmetic on a type
  \<open>'n\<close> of numbers gives the number \<open>js_lit\<close> that a literal denotes, the sum
  \<open>js_add\<close>, the product \<open>js_mul\<close> and the comparison \<open>js_ge\<close>. What is
  proved for every arithmetic holds for the one of the doubles.

  The fields \<^verbatim>\<open>id\<close>, \<^verbatim>\<open>count\<close>, \<^verbatim>\<open>watts\<close> and
  \<^verbatim>\<open>amps\<close> of a circuit carry the prefix \<open>circuit_\<close>, the fields of a
  distribution block the prefix \<open>mccb_\<close>. The size of a block is an entry of the
  table or the literal 400; it is kept as that literal.
\<close>

record 'n arithmetic =
  js_lit :: "rat \<Rightarrow> 'n"
  js_add :: "'n \<Rightarrow> 'n \<Rightarrow> 'n"
  js_mul :: "'n \<Rightarrow> 'n \<Rightarrow> 'n"
  js_ge :: "'n \<Rightarrow> 'n \<Rightarrow> bool"

record 'n Circuit =
  circuit_id :: nat
  circuit_count :: nat
  circuit_watts :: 'n
  circuit_amps :: 'n

record 'n MccbGroup =
  mccb_id :: nat
  mccb_circuits :: "'n Circuit list"
  mccb_totalAmps :: 'n
  mccb_size :: rat

definition CIRCUITS_PER_MCCB :: nat where
  "CIRCUITS_PER_MCCB = 6"

definition standardSizes :: "rat list" where
  "standardSizes = [32, 40, 63, 80, 100, 125, 160, 200, 250, 400]"

text \<open>
  \<^verbatim>\<open>
  for (let i = 0; i < activeCircuits.length; i += CIRCUITS_PER_MCCB) {
    const groupCircuits = activeCircuits.slice(i, i + CIRCUITS_PER_MCCB);
    const totalAmps = groupCircuits.reduce((sum, c) => sum + c.amps, 0);
    const required = totalAmps * 1.25;
    const size = standardSizes.find(s => s >= required) || 400;
    mccbGroups.push({ id: Math.floor(i / CIRCUITS_PER_MCCB) + 1,
                      circuits: groupCircuits, totalAmps, size });
  }
  \<close>
\<close>

function mccb_loop ::
  "'n arithmetic \<Rightarrow> 'n Circuit list \<Rightarrow> nat \<Rightarrow> 'n MccbGroup list \<Rightarrow> 'n MccbGroup list" where
  "mccb_loop ar activeCircuits i mccbGroups =
     (if i < length activeCircuits
      then (let groupCircuits = slice activeCircuits i (i + CIRCUITS_PER_MCCB);
                totalAmps = foldl (\<lambda>sum c. js_add ar sum (circuit_amps c)) (js_lit ar 0)
                              groupCircuits;
                required = js_mul ar totalAmps (js_lit ar 1.25);
                size = js_or (List.find (\<lambda>s. js_ge ar (js_lit ar s) required) standardSizes) 400
            in mccb_loop ar activeCircuits (i + CIRCUITS_PER_MCCB)
                 (mccbGroups @
                  [\<lparr>mccb_id = i div CIRCUITS_PER_MCCB + 1, mccb_circuits = groupCircuits,
                    mccb_totalAmps = totalAmps, mccb_size = size\<rparr>]))
      else mccbGroups)"
  by pat_completeness auto
termination
  by (relation "measure (\<lambda>(ar, activeCircuits, i, mccbGroups). length activeCircuits - i)")
     (auto simp: CIRCUITS_PER_MCCB_def)

definition mccbGroups :: "'n arithmetic \<Rightarrow> 'n Circuit list \<Rightarrow> 'n MccbGroup list" where
  "mccbGroups ar activeCircuits = mccb_loop ar activeCircuits 0 []"

text \<open>
  The closed form the loop is compared with: the block at chunk position \<open>k\<close>,
  counted from zero.
\<close>

definition block :: "'n arithmetic \<Rightarrow> 'n Circuit list \<Rightarrow> nat \<Rightarrow> 'n MccbGroup" where
  "block ar activeCircuits k =
     \<lparr>mccb_id = k + 1,
      mccb_circuits = take 6 (drop (6 * k) activeCircuits),
      mccb_totalAmps =
        foldl (\<lambda>sum c. js_add ar sum (circuit_amps c)) (js_lit ar 0)
          (take 6 (drop (6 * k) activeCircuits)),
      mccb_size =
        js_or (List.find
                 (\<lambda>s. js_ge ar (js_lit ar s)
                        (js_mul ar
                           (foldl (\<lambda>sum c. js_add ar sum (circuit_amps c)) (js_lit ar 0)
                              (take 6 (drop (6 * k) activeCircuits)))
                           (js_lit ar 1.25)))
                 standardSizes) 400\<rparr>"

text \<open>
  Two arithmetics on the rationals. In \<open>exact\<close> nothing is rounded. In
  \<open>binary64\<close> every literal, sum and product is rounded to the nearest number with
  53 significant bits, a tie to the even one: the arithmetic of the doubles wherever
  no result overflows, underflows or is NaN. \<open>exponent v\<close> is the integer \<open>e\<close>
  with \<open>2 ^ e \<le> v < 2 ^ (e + 1)\<close> for a positive \<open>v\<close>.
\<close>

definition exact :: "rat arithmetic" where
  "exact = \<lparr>js_lit = (\<lambda>v. v), js_add = (+), js_mul = (*), js_ge = (\<ge>)\<rparr>"

function bitlen :: "int \<Rightarrow> int" where
  "bitlen n = (if n \<le> 0 then 0 else 1 + bitlen (n div 2))"
  by pat_completeness auto
termination
  by (relation "measure nat") auto

definition exponent :: "rat \<Rightarrow> int" where
  "exponent v =
     (if 1 \<le> v then bitlen \<lfloor>v\<rfloor> - 1
      else - bitlen (\<lceil>1 / v\<rceil> - 1))"

definition pow2 :: "int \<Rightarrow> rat" where
  "pow2 e = (if 0 \<le> e then 2 ^ nat e else 1 / 2 ^ nat (- e))"

definition round_even :: "rat \<Rightarrow> int" where
  "round_even q =
     (let n = \<lfloor>q\<rfloor>; f = q - of_int n
      in if f < 1 / 2 then n else if 1 / 2 < f then n + 1 else if even n then n else n + 1)"

definition round53 :: "rat \<Rightarrow> rat" where
  "round53 v =
     (if v = 0 then 0
      else let u = pow2 (exponent \<bar>v\<bar> - 52)
           in sgn v * of_int (round_even (\<bar>v\<bar> / u)) * u)"

definition binary64 :: "rat arithmetic" where
  "binary64 =
     \<lparr>js_lit = round53,
      js_add = (\<lambda>a b. round53 (a + b)),
      js_mul = (\<lambda>a b. round53 (a * b)),
      js_ge = (\<ge>)\<rparr>"

text \<open>
  Two inputs of the grouping. \<open>three_circuits\<close> are circuits of 10, 12 and 8
  cabinets of 220 W; their amperages and every sum and product the grouping forms of
  them are exact in both arithmetics. \<open>uneven_circuits\<close> are the five circuits
  of 36, 35, 35, 35 and 35 indoor cabinets of 250 W, with the amperages
  \<^verbatim>\<open>(c.count * wattsPerCabinet) / 220\<close> as the doubles hold them.
\<close>

definition three_circuits :: "rat Circuit list" where
  "three_circuits =
     [\<lparr>circuit_id = 0, circuit_count = 10, circuit_watts = 2200, circuit_amps = 10\<rparr>,
      \<lparr>circuit_id = 1, circuit_count = 12, circuit_watts = 2640, circuit_amps = 12\<rparr>,
      \<lparr>circuit_id = 2, circuit_count = 8, circuit_watts = 1760, circuit_amps = 8\<rparr>]"

definition uneven_circuits :: "rat Circuit list" where
  "uneven_circuits =
     [\<lparr>circuit_id = 0, circuit_count = 36, circuit_watts = 9000,
        circuit_amps = round53 (9000 / 220)\<rparr>,
      \<lparr>circuit_id = 1, circuit_count = 35, circuit_watts = 8750,
        circuit_amps = round53 (8750 / 220)\<rparr>,
      \<lparr>circuit_id = 2, circuit_count = 35, circuit_watts = 8750,
        circuit_amps = round53 (8750 / 220)\<rparr>,
      \<lparr>circuit_id = 3, circuit_count = 35, circuit_watts = 8750,
        circuit_amps = round53 (8750 / 220)\<rparr>,
      \<lparr>circuit_id = 4, circuit_count = 35, circuit_watts = 8750,
        circuit_amps = round53 (8750 / 220)\<rparr>]"

section \<open>The requirement calculation\<close>

subsection \<open>Constants\<close>

datatype environment = indoor | outdoor

record PowerSpec =
  peakWattsPerPanel :: rat
  avgWattsPerPanel :: rat

definition PIXEL_PITCHES :: "rat list" where
  "PIXEL_PITCHES = [1.25, 1.56, 1.95, 2.5, 2.6, 2.9, 3.91]"

definition MAX_PIXELS_PER_PORT :: rat where
  "MAX_PIXELS_PER_PORT = 650000"

definition SAFE_CAPACITY_PERCENTAGE :: rat where
  "SAFE_CAPACITY_PERCENTAGE = 0.85"

definition SAFE_PIXELS_PER_PORT :: rat where
  "SAFE_PIXELS_PER_PORT = MAX_PIXELS_PER_PORT * SAFE_CAPACITY_PERCENTAGE"

fun POWER_SPECS :: "environment \<Rightarrow> PowerSpec" where
  "POWER_SPECS indoor = \<lparr>peakWattsPerPanel = 250, avgWattsPerPanel = 100\<rparr>"
| "POWER_SPECS outdoor = \<lparr>peakWattsPerPanel = 500, avgWattsPerPanel = 200\<rparr>"

definition STANDARD_BREAKER_SIZES :: "rat list" where
  "STANDARD_BREAKER_SIZES =
     [20, 30, 40, 50, 60, 70, 80, 100, 125, 150, 175, 200, 225, 250, 300, 350, 400, 500, 600,
      800, 1000, 1200]"

subsection \<open>calculateRequirements\<close>

text \<open>
  \<^verbatim>\<open>Math.round\<close> rounds to the nearest integer, a half upwards;
  \<^verbatim>\<open>Math.ceil\<close> and \<^verbatim>\<open>Math.floor\<close> are the ceiling and the floor.
\<close>

definition Math_round :: "rat \<Rightarrow> int" where
  "Math_round v = \<lfloor>v + 1 / 2\<rfloor>"

definition Math_ceil :: "rat \<Rightarrow> int" where
  "Math_ceil v = \<lceil>v\<rceil>"

definition Math_floor :: "rat \<Rightarrow> int" where
  "Math_floor v = \<lfloor>v\<rfloor>"

record CalculationResult =
  pitch :: rat
  resolutionWidth :: int
  resolutionHeight :: int
  resolutionClass :: string
  totalPixels :: int
  lanPorts :: int
  controller :: string
  peakPowerWatts :: rat
  avgPowerWatts :: rat
  amps220v :: rat
  circuits220v :: int
  mainBreakerSize :: rat
  areaSqM :: rat
  cabinetsWidth :: int
  cabinetsHeight :: int
  totalCabinets :: int

text \<open>
  In the requirement calculation the numbers that are not integers are exact rationals:
  the model is the arithmetic the function describes, without the rounding of binary
  floating point.

  The function follows the source step by step. Its parameter \<^verbatim>\<open>pitch\<close> is
  written \<open>pitchMm\<close>, the name \<open>pitch\<close> being the field of the result.

  JavaScript raises nothing on a division by zero: the quotient is an infinity or NaN.
  The rationals hold neither, so the two divisions by a quantity that can vanish
  (\<^verbatim>\<open>pitch\<close> and \<^verbatim>\<open>pixelsPerCabinet\<close>) are guarded, and \<open>None\<close>
  stands for a run that leaves the finite numbers. The other divisors are the constants
  500, 1000 and 220, the peak wattage of the power table, and the two
  \<^verbatim>\<open>Math.max(1, ...)\<close> values.
\<close>

definition calculateRequirements ::
  "rat \<Rightarrow> rat \<Rightarrow> rat \<Rightarrow> environment \<Rightarrow> CalculationResult option" where
  "calculateRequirements widthMm heightMm pitchMm environment =
     (if pitchMm = 0 then None
      else
       let CABINET_WIDTH_MM = 500;
           CABINET_HEIGHT_MM = 1000;
           cabinetsWidth = Math_ceil (widthMm / CABINET_WIDTH_MM);
           cabinetsHeight = Math_ceil (heightMm / CABINET_HEIGHT_MM);
           totalCabinets = cabinetsWidth * cabinetsHeight;
           resolutionWidth = Math_round (widthMm / pitchMm);
           resolutionHeight = Math_round (heightMm / pitchMm);
           totalPixels = resolutionWidth * resolutionHeight;
           pixelsPerCabinetW = Math_round (CABINET_WIDTH_MM / pitchMm);
           pixelsPerCabinetH = Math_round (CABINET_HEIGHT_MM / pitchMm);
           pixelsPerCabinet = pixelsPerCabinetW * pixelsPerCabinetH
       in
        if pixelsPerCabinet = 0 then None
        else
         let longSide = max resolutionWidth resolutionHeight;
             shortSide = min resolutionWidth resolutionHeight;
             resolutionClass =
               (if longSide \<ge> 7680 \<and> shortSide \<ge> 4320 then ''8K''
                else if longSide \<ge> 3840 \<and> shortSide \<ge> 2160 then ''4K''
                else if longSide \<ge> 2560 \<and> shortSide \<ge> 1440 then ''QHD''
                else if longSide \<ge> 1920 \<and> shortSide \<ge> 1080 then ''FHD''
                else if longSide \<ge> 1280 \<and> shortSide \<ge> 720 then ''HD''
                else ''SD'');
             maxCabinetsPerPort = Math_floor (SAFE_PIXELS_PER_PORT / of_int pixelsPerCabinet);
             effectiveCabinetsPerPort = max 1 maxCabinetsPerPort;
             lanPorts = Math_ceil (of_int totalCabinets / of_int effectiveCabinetsPerPort);
             controller =
               (if lanPorts = 1 then ''TB20''
                else if lanPorts \<le> 2 then ''MCTRL300''
                else if lanPorts \<le> 4 then ''MCTRL600''
                else if lanPorts \<le> 16 then ''VX16s''
                else ''Multiple VX16s'');
             specs = POWER_SPECS environment;
             peakPowerWatts = of_int totalCabinets * peakWattsPerPanel specs;
             avgPowerWatts = of_int totalCabinets * avgWattsPerPanel specs;
             amps220v = peakPowerWatts / 220;
             ampsPerCabinet = peakWattsPerPanel specs / 220;
             SAFE_LOAD_FACTOR = 0.8;
             safeAmpsPerCircuit = 20 * SAFE_LOAD_FACTOR;
             maxCabinetsPerCircuit = Math_floor (safeAmpsPerCircuit / ampsPerCabinet);
             effectiveCabinetsPerCircuit = max 1 maxCabinetsPerCircuit;
             circuits220v = Math_ceil (of_int totalCabinets / of_int effectiveCabinetsPerCircuit);
             requiredMainAmps = amps220v * 1.25;
             mainBreakerSize =
               js_or (List.find (\<lambda>size. size \<ge> requiredMainAmps) STANDARD_BREAKER_SIZES)
                 (STANDARD_BREAKER_SIZES ! (length STANDARD_BREAKER_SIZES - 1));
             widthM = widthMm / 1000;
             heightM = heightMm / 1000;
             areaSqM = widthM * heightM
         in Some \<lparr>pitch = pitchMm,
                   resolutionWidth = resolutionWidth,
                   resolutionHeight = resolutionHeight,
                   resolutionClass = resolutionClass,
                   totalPixels = totalPixels,
                   lanPorts = lanPorts,
                   controller = controller,
                   peakPowerWatts = peakPowerWatts,
                   avgPowerWatts = avgPowerWatts,
                   amps220v = amps220v,
                   circuits220v = circuits220v,
                   mainBreakerSize = mainBreakerSize,
                   areaSqM = areaSqM,
                   cabinetsWidth = cabinetsWidth,
                   cabinetsHeight = cabinetsHeight,
                   totalCabinets = totalCabinets\<rparr>)"

text \<open>
  The pixel count of one cabinet, the divisor of the port capacity, on its own:
  \<^verbatim>\<open>
  const pixelsPerCabinetW = Math.round(CABINET_WIDTH_MM / pitch);
  const pixelsPerCabinetH = Math.round(CABINET_HEIGHT_MM / pitch);
  const pixelsPerCabinet = pixelsPerCabinetW * pixelsPerCabinetH;
  \<close>
\<close>

definition pixelsPerCabinet :: "rat \<Rightarrow> int" where
  "pixelsPerCabinet pitchMm = Math_round (500 / pitchMm) * Math_round (1000 / pitchMm)"

subsection \<open>The sweep over the supported pitches\<close>

text \<open>
  The \<^verbatim>\<open>results\<close> memo of the application component; the two dimension fields
  hold a number or the empty string:
  \<^verbatim>\<open>
  const w = Number(width);
  const h = Number(height);
  if (!w || !h) return [];
  return PIXEL_PITCHES.map(pitch => calculateRequirements(w, h, pitch, environment));
  \<close>
  \<^verbatim>\<open>Number('')\<close> is zero, and \<^verbatim>\<open>!w\<close> holds of a number exactly when it is
  zero (or NaN, which the rationals do not hold).
\<close>

datatype dimension = Blank | Entered rat

fun Number :: "dimension \<Rightarrow> rat" where
  "Number Blank = 0"
| "Number (Entered v) = v"

definition results :: "dimension \<Rightarrow> dimension \<Rightarrow> environment \<Rightarrow> CalculationResult option list" where
  "results width height environment =
     (let w = Number width;
          h = Number height
      in if w = 0 \<or> h = 0 then []
         else map (\<lambda>pitchMm. calculateRequirements w h pitchMm environment) PIXEL_PITCHES)"

section \<open>Properties of the balanced assignment\<close>

declare inner_loop.simps [simp del] outer_loop.simps [simp del]

text \<open>
  One run of the inner loop writes \<open>count - j\<close> copies of the group id behind the
  filled prefix, as long as they fit.
\<close>

lemma inner_loop_fills:
  "length xs + (count - j) \<le> T \<Longrightarrow>
   inner_loop T i count j (xs @ replicate (T - length xs) 0, length xs) =
     ((xs @ replicate (count - j) i) @ replicate (T - (length xs + (count - j))) 0,
      length xs + (count - j))"
proof (induction "count - j" arbitrary: j xs)
  case 0
  then show ?case by (simp add: inner_loop.simps)
next
  case (Suc n)
  then have jc: "j < count" and n: "n = count - Suc j" and lt: "length xs < T" by simp_all
  obtain m where m: "T - length xs = Suc m" using lt by (metis Suc_diff_Suc)
  have upd: "(xs @ replicate (T - length xs) 0)[length xs := i] = (xs @ [i]) @ replicate (T - length (xs @ [i])) 0"
  proof -
    have "T - Suc (length xs) = m" using m by simp
    then show ?thesis using m by simp
  qed
  have "inner_loop T i count j (xs @ replicate (T - length xs) 0, length xs) =
        inner_loop T i count (Suc j) ((xs @ [i]) @ replicate (T - length (xs @ [i])) 0, length (xs @ [i]))"
    using jc lt upd by (subst inner_loop.simps) simp
  also have "\<dots> = (((xs @ [i]) @ replicate (count - Suc j) i) @ replicate (T - (length (xs @ [i]) + (count - Suc j))) 0,
      length (xs @ [i]) + (count - Suc j))"
    using Suc.prems n Suc.hyps(2) by (intro Suc.hyps(1)) simp_all
  also have "\<dots> = ((xs @ replicate (count - j) i) @ replicate (T - (length xs + (count - j))) 0,
      length xs + (count - j))"
    using jc by (simp add: Suc_diff_Suc replicate_append_same flip: replicate_Suc)
  finally show ?case .
qed


lemma length_filled:
  "length (filled T G i) = (\<Sum>k<i. groupSize T G k)"
  by (induction i) (simp_all add: filled_def)

lemma sum_groupSize_le:
  "i \<le> G \<Longrightarrow> (\<Sum>k<i. groupSize T G k) = i * (T div G) + min i (T mod G)"
  by (induction i) (auto simp: groupSize_def)

lemma sum_groupSize_all:
  "0 < G \<Longrightarrow> (\<Sum>k<G. groupSize T G k) = T"
proof -
  assume G: "0 < G"
  then have "T mod G < G" by simp
  then have "min G (T mod G) = T mod G" by simp
  then show ?thesis using sum_groupSize_le [of G G T] by simp
qed

lemma sum_groupSize_mono:
  "i \<le> G \<Longrightarrow> (\<Sum>k<i. groupSize T G k) \<le> (\<Sum>k<G. groupSize T G k)"
  by (rule sum_mono2) auto

lemma filled_Suc:
  "filled T G (Suc i) = filled T G i @ replicate (groupSize T G i) i"
  by (simp add: filled_def)

lemma outer_loop_fills:
  "i \<le> G \<Longrightarrow> 0 < G \<Longrightarrow>
   outer_loop T G (T div G) (T mod G) i
     (filled T G i @ replicate (T - length (filled T G i)) 0, length (filled T G i)) =
   (filled T G G @ replicate (T - length (filled T G G)) 0, length (filled T G G))"
proof (induction "G - i" arbitrary: i)
  case 0
  then show ?case by (simp add: outer_loop.simps)
next
  case (Suc n)
  then have iG: "i < G" and n: "n = G - Suc i" by simp_all
  have "length (filled T G (Suc i)) \<le> T"
    using sum_groupSize_mono [of "Suc i" G T] iG sum_groupSize_all [of G T] Suc.prems(2)
    by (simp add: length_filled)
  then have room: "length (filled T G i) + (groupSize T G i - 0) \<le> T"
    by (simp add: filled_Suc)
  have step: "inner_loop T i (if i < T mod G then T div G + 1 else T div G) 0
          (filled T G i @ replicate (T - length (filled T G i)) 0, length (filled T G i)) =
        (filled T G (Suc i) @ replicate (T - length (filled T G (Suc i))) 0, length (filled T G (Suc i)))"
    using inner_loop_fills [OF room, of i] by (simp add: filled_Suc groupSize_def)
  have "outer_loop T G (T div G) (T mod G) i
     (filled T G i @ replicate (T - length (filled T G i)) 0, length (filled T G i)) =
     outer_loop T G (T div G) (T mod G) (Suc i)
       (filled T G (Suc i) @ replicate (T - length (filled T G (Suc i))) 0, length (filled T G (Suc i)))"
    using iG by (subst outer_loop.simps) (simp only: step if_True)
  also have "\<dots> = (filled T G G @ replicate (T - length (filled T G G)) 0, length (filled T G G))"
    using iG n Suc.prems(2) by (intro Suc.hyps(1)) simp_all
  finally show ?case .
qed

lemma generateAssignments_filled:
  assumes "0 < G"
  shows "generateAssignments T G = filled T G G"
proof -
  have "length (filled T G G) = T"
    using assms by (simp add: length_filled sum_groupSize_all)
  then show ?thesis
    using outer_loop_fills [of 0 G T] assms
    by (simp add: generateAssignments_def filled_def)
qed

lemma count_list_replicate_eq:
  "count_list (replicate n x) y = (if x = y then n else 0)"
  by (induction n) auto

lemma count_filled:
  "count_list (filled T G i) g = (if g < i then groupSize T G g else 0)"
proof (induction i)
  case 0
  show ?case by (simp add: filled_def)
next
  case (Suc i)
  then show ?case
    by (auto simp: filled_Suc count_list_replicate_eq less_Suc_eq)
qed

lemma set_filled: "set (filled T G i) \<subseteq> {0..<i}"
  by (induction i) (auto simp: filled_Suc filled_def)

lemma generateAssignments_length:
  "0 < G \<Longrightarrow> length (generateAssignments T G) = T"
  by (simp add: generateAssignments_filled length_filled sum_groupSize_all)

lemma generateAssignments_range:
  "0 < G \<Longrightarrow> set (generateAssignments T G) \<subseteq> {0..<G}"
  by (simp add: generateAssignments_filled set_filled)

text \<open>
  C1: with at least one group, \<open>generateAssignments\<close> returns exactly
  \<open>totalItems\<close> group ids, all below \<open>groupCount\<close>; group \<open>g\<close> occurs
  \<open>totalItems div groupCount + 1\<close> times when \<open>g < totalItems mod groupCount\<close>
  and \<open>totalItems div groupCount\<close> times otherwise, so the first
  \<open>totalItems mod groupCount\<close> groups in id order hold the extra item; the
  occurrence counts add up to \<open>totalItems\<close>; and 11 items over 4 groups give the
  counts 3, 3, 3, 2.
\<close>

theorem generateAssignments_balanced:
  assumes "1 \<le> groupCount"
  shows "length (generateAssignments totalItems groupCount) = totalItems \<and>
         set (generateAssignments totalItems groupCount) \<subseteq> {0..<groupCount} \<and>
         (\<forall>g<groupCount. count_list (generateAssignments totalItems groupCount) g =
            (if g < totalItems mod groupCount then totalItems div groupCount + 1
             else totalItems div groupCount)) \<and>
         (\<Sum>g<groupCount. count_list (generateAssignments totalItems groupCount) g) = totalItems \<and>
         map (count_list (generateAssignments 11 4)) [0, 1, 2, 3] = [3, 3, 3, 2]"
proof -
  have G: "0 < groupCount" using assms by simp
  have eq: "generateAssignments totalItems groupCount = filled totalItems groupCount groupCount"
    by (rule generateAssignments_filled [OF G])
  have len: "length (filled totalItems groupCount groupCount) = totalItems"
    using G by (simp add: length_filled sum_groupSize_all)
  have cnt: "\<forall>g<groupCount. count_list (filled totalItems groupCount groupCount) g =
            (if g < totalItems mod groupCount then totalItems div groupCount + 1
             else totalItems div groupCount)"
    by (simp add: count_filled groupSize_def)
  have total: "(\<Sum>g<groupCount. count_list (filled totalItems groupCount groupCount) g) = totalItems"
    using sum_groupSize_all [OF G, of totalItems] by (simp add: count_filled)
  have ex: "map (count_list (generateAssignments 11 4)) [0, 1, 2, 3] = [3, 3, 3, 2]"
    by (simp add: generateAssignments_filled count_filled groupSize_def)
  show ?thesis
    unfolding eq using len cnt total ex set_filled [of totalItems groupCount groupCount] by blast
qed

theorem generateAssignments_balanced_witness:
  "(1::nat) \<le> 4 \<and> generateAssignments 11 4 = [0, 0, 0, 1, 1, 1, 2, 2, 2, 3, 3] \<and>
   length (generateAssignments 11 4) = 11 \<and>
   count_list (generateAssignments 11 4) 0 = 11 div 4 + 1 \<and>
   count_list (generateAssignments 11 4) 3 = 11 div 4"
proof -
  have run: "generateAssignments 11 4 = [0, 0, 0, 1, 1, 1, 2, 2, 2, 3, 3]"
    by code_simp
  have "length (generateAssignments 11 4) = 11 \<and>
        (\<forall>g<4. count_list (generateAssignments 11 4) g =
           (if g < 11 mod 4 then 11 div 4 + 1 else 11 div 4))"
    using generateAssignments_balanced [of 4 11] by simp
  then have "length (generateAssignments 11 4) = 11 \<and>
        count_list (generateAssignments 11 4) 0 = 11 div 4 + 1 \<and>
        count_list (generateAssignments 11 4) 3 = 11 div 4"
    by simp
  with run show ?thesis by simp
qed

section \<open>Properties of the snake order\<close>

lemma snakeIndex_offset:
  "snakeIndex x y h = x * h + (if x mod 2 = 0 then y else h - 1 - y)"
  by (simp add: snakeIndex_def)

lemma snakeIndex_div:
  assumes "y < h"
  shows "snakeIndex x y h div h = x"
proof -
  have "(if x mod 2 = 0 then y else h - 1 - y) < h" using assms by auto
  then show ?thesis unfolding snakeIndex_offset by simp
qed

lemma snakeIndex_mod:
  assumes "y < h"
  shows "snakeIndex x y h mod h = (if x mod 2 = 0 then y else h - 1 - y)"
proof -
  have "(if x mod 2 = 0 then y else h - 1 - y) < h" using assms by auto
  then show ?thesis unfolding snakeIndex_offset by simp
qed

lemma snakeIndex_less:
  assumes "x < w" "y < h"
  shows "snakeIndex x y h < w * h"
proof -
  have "snakeIndex x y h < x * h + h"
    using assms(2) by (simp add: snakeIndex_def)
  also have "\<dots> = Suc x * h" by simp
  also have "\<dots> \<le> w * h"
    using assms(1) by (intro mult_le_mono1) simp
  finally show ?thesis .
qed

lemma snakeIndex_inj:
  assumes "y < h" "y' < h" "snakeIndex x y h = snakeIndex x' y' h"
  shows "x = x' \<and> y = y'"
proof -
  have x: "x = x'"
    using snakeIndex_div [OF assms(1), of x] snakeIndex_div [OF assms(2), of x'] assms(3) by simp
  have "(if x mod 2 = 0 then y else h - 1 - y) = (if x mod 2 = 0 then y' else h - 1 - y')"
    using snakeIndex_mod [OF assms(1), of x] snakeIndex_mod [OF assms(2), of x'] assms(3) x by simp
  then have "y = y'"
    using assms(1,2) by (auto split: if_splits)
  with x show ?thesis by simp
qed

lemma snakeIndex_onto:
  assumes "n < w * h"
  shows "\<exists>x<w. \<exists>y<h. snakeIndex x y h = n"
proof -
  have h: "0 < h" using assms by (cases h) simp_all
  let ?x = "n div h"
  let ?r = "n mod h"
  let ?y = "if ?x mod 2 = 0 then ?r else h - 1 - ?r"
  have r: "?r < h" using h by simp
  have xw: "?x < w" using assms h by (simp add: less_mult_imp_div_less)
  have yh: "?y < h" using r by auto
  have "snakeIndex ?x ?y h = ?x * h + ?r"
    using r by (auto simp: snakeIndex_def)
  then have "snakeIndex ?x ?y h = n" by simp
  with xw yh show ?thesis by blast
qed

lemma snakeIndex_image:
  "(\<lambda>(x, y). snakeIndex x y h) ` ({0..<w} \<times> {0..<h}) = {0..<w * h}"
proof (intro set_eqI iffI)
  fix n assume "n \<in> (\<lambda>(x, y). snakeIndex x y h) ` ({0..<w} \<times> {0..<h})"
  then show "n \<in> {0..<w * h}" by (auto simp: snakeIndex_less)
next
  fix n assume "n \<in> {0..<w * h}"
  then obtain x y where "x < w" "y < h" "snakeIndex x y h = n"
    using snakeIndex_onto [of n w h] by auto
  then show "n \<in> (\<lambda>(x, y). snakeIndex x y h) ` ({0..<w} \<times> {0..<h})"
    by force
qed

lemma gridData_snakeIndices:
  "map cell_snakeIndex (gridData w h n p c) =
     concat (map (\<lambda>y. map (\<lambda>x. snakeIndex x y h) [0..<w]) [0..<h])"
  by (simp add: gridData_def Let_def map_concat comp_def)

lemma set_snake_rows:
  "set (concat (map (\<lambda>y. map (\<lambda>x. snakeIndex x y h) [0..<w]) [0..<h])) =
     (\<lambda>(x, y). snakeIndex x y h) ` ({0..<w} \<times> {0..<h})"
  by force

lemma length_rows:
  "length (concat (map (\<lambda>y. map (\<lambda>x. f x y) [0..<w]) [0..<h])) = w * h"
  by (simp add: length_concat comp_def sum_list_triv)

text \<open>
  C2: the snake index is a bijection from the cells of the grid onto the indices below
  \<open>w * h\<close>; the cells that \<open>gridData\<close> builds carry every such index exactly
  once.
\<close>

theorem snakeIndex_bijection:
  "bij_betw (\<lambda>(x, y). snakeIndex x y h) ({0..<w} \<times> {0..<h}) {0..<w * h} \<and>
   set (map cell_snakeIndex (gridData w h n p c)) = {0..<w * h} \<and>
   distinct (map cell_snakeIndex (gridData w h n p c)) \<and>
   length (gridData w h n p c) = w * h"
proof -
  have inj: "inj_on (\<lambda>(x, y). snakeIndex x y h) ({0..<w} \<times> {0..<h})"
    by (rule inj_onI) (auto dest: snakeIndex_inj)
  have bij: "bij_betw (\<lambda>(x, y). snakeIndex x y h) ({0..<w} \<times> {0..<h}) {0..<w * h}"
    using inj snakeIndex_image by (simp add: bij_betw_def)
  have st: "set (map cell_snakeIndex (gridData w h n p c)) = {0..<w * h}"
    unfolding gridData_snakeIndices set_snake_rows by (rule snakeIndex_image)
  have len: "length (map cell_snakeIndex (gridData w h n p c)) = w * h"
    unfolding gridData_snakeIndices by (rule length_rows)
  have "card (set (map cell_snakeIndex (gridData w h n p c))) =
        length (map cell_snakeIndex (gridData w h n p c))"
    unfolding st len by simp
  then have dist: "distinct (map cell_snakeIndex (gridData w h n p c))"
    by (rule card_distinct)
  from bij st dist len show ?thesis by simp
qed


subsection \<open>Port and circuit of a cell\<close>

lemma gridData_cell:
  assumes "c \<in> set (gridData w h n p k)"
  shows "cell_x c < w \<and> cell_y c < h \<and>
         cell_snakeIndex c = snakeIndex (cell_x c) (cell_y c) h \<and>
         cell_portId c = lookup (generateAssignments n p) (cell_snakeIndex c) \<and>
         cell_circuitId c = lookup (generateAssignments n k) (cell_snakeIndex c)"
  using assms by (auto simp: gridData_def Let_def)

lemma lookup_generateAssignments:
  assumes "0 < g" and "i < n"
  shows "\<exists>v. lookup (generateAssignments n g) i = Some v \<and> v < g \<and>
              v = generateAssignments n g ! i"
proof -
  have len: "i < length (generateAssignments n g)"
    using assms by (simp add: generateAssignments_length)
  then have "generateAssignments n g ! i \<in> set (generateAssignments n g)"
    by (rule nth_mem)
  then have "generateAssignments n g ! i < g"
    using generateAssignments_range [OF assms(1), of n] by auto
  with len show ?thesis by (simp add: lookup_def)
qed

text \<open>
  C4: when the grid has \<open>n = w * h\<close> cabinets, at least one, and there is at least
  one port and one circuit, the snake index of every cell that \<open>gridData\<close> builds
  is a valid index into both assignment sequences, each of length \<open>n\<close>; so both
  lookups succeed, and the cell carries one port id below \<open>p\<close> and one circuit id
  below \<open>k\<close>, the entries of the two sequences at its snake index.
\<close>

theorem gridData_cells_assigned:
  assumes "n = w * h" and "1 \<le> n" and "1 \<le> p" and "1 \<le> k"
    and "c \<in> set (gridData w h n p k)"
  shows "cell_snakeIndex c < length (generateAssignments n p) \<and>
         cell_snakeIndex c < length (generateAssignments n k) \<and>
         length (generateAssignments n p) = n \<and>
         length (generateAssignments n k) = n \<and>
         (\<exists>port circuit.
            cell_portId c = Some port \<and> port < p \<and>
            port = generateAssignments n p ! cell_snakeIndex c \<and>
            cell_circuitId c = Some circuit \<and> circuit < k \<and>
            circuit = generateAssignments n k ! cell_snakeIndex c)"
proof -
  note cell = gridData_cell [OF assms(5)]
  have idx: "cell_snakeIndex c < n"
    using cell snakeIndex_less [of "cell_x c" w "cell_y c" h] assms(1) by simp
  have p: "0 < p" and k: "0 < k" using assms(3,4) by simp_all
  obtain port where port: "lookup (generateAssignments n p) (cell_snakeIndex c) = Some port"
      "port < p" "port = generateAssignments n p ! cell_snakeIndex c"
    using lookup_generateAssignments [OF p idx] by blast
  obtain circuit where circuit:
      "lookup (generateAssignments n k) (cell_snakeIndex c) = Some circuit"
      "circuit < k" "circuit = generateAssignments n k ! cell_snakeIndex c"
    using lookup_generateAssignments [OF k idx] by blast
  show ?thesis
    using idx port circuit cell
    by (simp add: generateAssignments_length [OF p] generateAssignments_length [OF k])
qed


lemma gridData_run:
  "gridData 3 2 6 2 4 =
    [\<lparr>cell_x = 0, cell_y = 0, cell_snakeIndex = 0, cell_portId = Some 0, cell_circuitId = Some 0\<rparr>,
     \<lparr>cell_x = 1, cell_y = 0, cell_snakeIndex = 3, cell_portId = Some 1, cell_circuitId = Some 1\<rparr>,
     \<lparr>cell_x = 2, cell_y = 0, cell_snakeIndex = 4, cell_portId = Some 1, cell_circuitId = Some 2\<rparr>,
     \<lparr>cell_x = 0, cell_y = 1, cell_snakeIndex = 1, cell_portId = Some 0, cell_circuitId = Some 0\<rparr>,
     \<lparr>cell_x = 1, cell_y = 1, cell_snakeIndex = 2, cell_portId = Some 0, cell_circuitId = Some 1\<rparr>,
     \<lparr>cell_x = 2, cell_y = 1, cell_snakeIndex = 5, cell_portId = Some 1, cell_circuitId = Some 3\<rparr>]"
  by code_simp


theorem gridData_cells_assigned_witness:
  "(6::nat) = 3 * 2 \<and> (1::nat) \<le> 6 \<and> (1::nat) \<le> 2 \<and> (1::nat) \<le> 4 \<and>
   \<lparr>cell_x = 2, cell_y = 0, cell_snakeIndex = 4, cell_portId = Some 1, cell_circuitId = Some 2\<rparr>
     \<in> set (gridData 3 2 6 2 4) \<and>
   4 < length (generateAssignments 6 2) \<and> 4 < length (generateAssignments 6 4) \<and>
   generateAssignments 6 2 ! 4 = 1 \<and> generateAssignments 6 4 ! 4 = 2"
proof -
  let ?c = "\<lparr>cell_x = 2, cell_y = 0, cell_snakeIndex = 4, cell_portId = Some 1,
             cell_circuitId = Some 2\<rparr>"
  have mem: "?c \<in> set (gridData 3 2 6 2 4)"
    unfolding gridData_run by simp
  have "(6::nat) = 3 * 2" "(1::nat) \<le> 6" "(1::nat) \<le> 2" "(1::nat) \<le> 4" by simp_all
  from gridData_cells_assigned [OF this mem] mem show ?thesis by simp
qed


section \<open>Properties of the requirement calculation\<close>

text \<open>
  The floor of a quotient of two numerals is their integer quotient; with it the
  simplifier evaluates the roundings of the model at the supported pitches.
\<close>

lemma floor_rat_numeral [simp]:
  "\<lfloor>numeral a / numeral b :: rat\<rfloor> = numeral a div numeral b"
  by (metis floor_divide_of_int_eq of_int_numeral)

lemma pixelsPerCabinet_values:
  "map pixelsPerCabinet PIXEL_PITCHES = [320000, 205761, 131328, 80000, 73920, 59340, 32768]"
  by (simp add: pixelsPerCabinet_def PIXEL_PITCHES_def Math_round_def)

lemma calculateRequirements_None_iff:
  "calculateRequirements w h p env = None \<longleftrightarrow> p = 0 \<or> pixelsPerCabinet p = 0"
  by (simp add: calculateRequirements_def pixelsPerCabinet_def Let_def)

lemma pixelsPerCabinet_supported:
  assumes "p \<in> set PIXEL_PITCHES"
  shows "32768 \<le> pixelsPerCabinet p"
proof -
  have "pixelsPerCabinet p \<in> set (map pixelsPerCabinet PIXEL_PITCHES)"
    using assms by simp
  then show ?thesis
    unfolding pixelsPerCabinet_values by auto
qed

lemma supported_pitch_positive:
  "p \<in> set PIXEL_PITCHES \<Longrightarrow> 0 < p"
  by (auto simp: PIXEL_PITCHES_def)

lemma calculateRequirements_supported:
  assumes "p \<in> set PIXEL_PITCHES"
  shows "\<exists>r. calculateRequirements w h p env = Some r"
proof -
  have "p \<noteq> 0" using supported_pitch_positive [OF assms] by simp
  moreover have "pixelsPerCabinet p \<noteq> 0" using pixelsPerCabinet_supported [OF assms] by simp
  ultimately have "calculateRequirements w h p env \<noteq> None"
    by (simp add: calculateRequirements_None_iff)
  then show ?thesis by blast
qed

lemma calc_record:
  assumes "calculateRequirements w h p env = Some r"
  shows "p \<noteq> 0" and "Math_round (500 / p) * Math_round (1000 / p) \<noteq> 0"
  using assms calculateRequirements_None_iff [of w h p env]
  by (simp_all add: pixelsPerCabinet_def)

lemma calc_geometry:
  assumes "calculateRequirements w h p env = Some r"
  shows "pitch r = p"
    and "cabinetsWidth r = Math_ceil (w / 500)"
    and "cabinetsHeight r = Math_ceil (h / 1000)"
    and "totalCabinets r = Math_ceil (w / 500) * Math_ceil (h / 1000)"
    and "resolutionWidth r = Math_round (w / p)"
    and "resolutionHeight r = Math_round (h / p)"
    and "totalPixels r = Math_round (w / p) * Math_round (h / p)"
    and "areaSqM r = w / 1000 * (h / 1000)"
  using assms [symmetric]
  by (simp_all only: calculateRequirements_def pixelsPerCabinet_def Let_def
      calc_record [OF assms] if_False option.inject CalculationResult.select_convs)



lemma calc_lanPorts:
  assumes "calculateRequirements w h p env = Some r"
  shows "lanPorts r =
     Math_ceil (of_int (totalCabinets r) /
       of_int (max 1 (Math_floor (SAFE_PIXELS_PER_PORT / of_int (pixelsPerCabinet p)))))"
  using assms [symmetric]
  by (simp_all only: calculateRequirements_def pixelsPerCabinet_def Let_def
      calc_record [OF assms] if_False option.inject CalculationResult.select_convs)


lemma calc_power:
  assumes "calculateRequirements w h p env = Some r"
  shows "peakPowerWatts r = of_int (totalCabinets r) * peakWattsPerPanel (POWER_SPECS env)"
    and "avgPowerWatts r = of_int (totalCabinets r) * avgWattsPerPanel (POWER_SPECS env)"
    and "amps220v r = peakPowerWatts r / 220"
  using assms [symmetric]
  by (simp_all only: calculateRequirements_def pixelsPerCabinet_def Let_def
      calc_record [OF assms] if_False option.inject CalculationResult.select_convs)

lemma calc_circuits:
  assumes "calculateRequirements w h p env = Some r"
  shows "circuits220v r =
       Math_ceil (of_int (totalCabinets r) /
         of_int (max 1 (Math_floor (20 * 0.8 / (peakWattsPerPanel (POWER_SPECS env) / 220)))))"
  using assms [symmetric]
  by (simp_all only: calculateRequirements_def pixelsPerCabinet_def Let_def
      calc_record [OF assms] if_False option.inject CalculationResult.select_convs)


lemma calc_mainBreakerSize:
  assumes "calculateRequirements w h p env = Some r"
  shows "mainBreakerSize r =
       js_or (List.find (\<lambda>size. size \<ge> amps220v r * 1.25) STANDARD_BREAKER_SIZES)
         (STANDARD_BREAKER_SIZES ! (length STANDARD_BREAKER_SIZES - 1))"
  using assms [symmetric]
  by (simp_all only: calculateRequirements_def pixelsPerCabinet_def Let_def
      calc_record [OF assms] if_False option.inject CalculationResult.select_convs)


lemma calc_resolutionClass:
  assumes "calculateRequirements w h p env = Some r"
  shows "resolutionClass r =
     (let longSide = max (resolutionWidth r) (resolutionHeight r);
          shortSide = min (resolutionWidth r) (resolutionHeight r)
      in if longSide \<ge> 7680 \<and> shortSide \<ge> 4320 then ''8K''
         else if longSide \<ge> 3840 \<and> shortSide \<ge> 2160 then ''4K''
         else if longSide \<ge> 2560 \<and> shortSide \<ge> 1440 then ''QHD''
         else if longSide \<ge> 1920 \<and> shortSide \<ge> 1080 then ''FHD''
         else if longSide \<ge> 1280 \<and> shortSide \<ge> 720 then ''HD''
         else ''SD'')"
  using assms [symmetric]
  by (simp_all only: calculateRequirements_def pixelsPerCabinet_def Let_def
      calc_record [OF assms] if_False option.inject CalculationResult.select_convs)

lemma calc_controller:
  assumes "calculateRequirements w h p env = Some r"
  shows "controller r =
     (if lanPorts r = 1 then ''TB20''
      else if lanPorts r \<le> 2 then ''MCTRL300''
      else if lanPorts r \<le> 4 then ''MCTRL600''
      else if lanPorts r \<le> 16 then ''VX16s''
      else ''Multiple VX16s'')"
  using assms [symmetric]
  by (simp_all only: calculateRequirements_def pixelsPerCabinet_def Let_def
      calc_record [OF assms] if_False option.inject CalculationResult.select_convs)

lemma calc_environment_free:
  assumes "calculateRequirements w h p e1 = Some r1"
    and "calculateRequirements w h p e2 = Some r2"
  shows "resolutionClass r1 = resolutionClass r2"
    and "lanPorts r1 = lanPorts r2"
    and "controller r1 = controller r2"
proof -
  show ports: "lanPorts r1 = lanPorts r2"
    by (simp only: calc_lanPorts [OF assms(1)] calc_lanPorts [OF assms(2)]
        calc_geometry(4) [OF assms(1)] calc_geometry(4) [OF assms(2)])
  show "resolutionClass r1 = resolutionClass r2"
    by (simp only: calc_resolutionClass [OF assms(1)] calc_resolutionClass [OF assms(2)]
        calc_geometry(5,6) [OF assms(1)] calc_geometry(5,6) [OF assms(2)])
  show "controller r1 = controller r2"
    by (simp only: calc_controller [OF assms(1)] calc_controller [OF assms(2)] ports)
qed


text \<open>The run of the reference wall: 5000 mm by 3000 mm at pitch 2.5, indoors.\<close>

lemma reference_wall_run:
  "calculateRequirements 5000 3000 2.5 indoor =
     Some \<lparr>pitch = 2.5, resolutionWidth = 2000, resolutionHeight = 1200,
           resolutionClass = ''FHD'', totalPixels = 2400000, lanPorts = 5,
           controller = ''VX16s'', peakPowerWatts = 7500, avgPowerWatts = 3000,
           amps220v = 7500 / 220, circuits220v = 3, mainBreakerSize = 50, areaSqM = 15,
           cabinetsWidth = 10, cabinetsHeight = 3, totalCabinets = 30\<rparr>"
  by code_simp

text \<open>
  C3: for a wall of 5000 mm by 3000 mm at pitch 2.5 indoors, \<open>calculateRequirements\<close>
  returns 10 by 3 cabinets, 30 in all, a resolution of 2000 by 1200 in class FHD, 5 LAN
  ports on a VX16s controller, 7500 W of peak power, 7500 / 220 A (34.09 A to two
  decimals), 3 circuits, a main breaker of 50 A and an area of 15 square metres.
\<close>

theorem scenario_A:
  "\<exists>r. calculateRequirements 5000 3000 2.5 indoor = Some r \<and>
     cabinetsWidth r = 10 \<and> cabinetsHeight r = 3 \<and> totalCabinets r = 30 \<and>
     resolutionWidth r = 2000 \<and> resolutionHeight r = 1200 \<and> resolutionClass r = ''FHD'' \<and>
     lanPorts r = 5 \<and> controller r = ''VX16s'' \<and> peakPowerWatts r = 7500 \<and>
     amps220v r = 7500 / 220 \<and> \<bar>amps220v r - 34.09\<bar> < 0.005 \<and>
     circuits220v r = 3 \<and> mainBreakerSize r = 50 \<and> areaSqM r = 15"
  using reference_wall_run by simp

text \<open>
  C9: at every supported pitch a cabinet holds at least one pixel, the pitch is not zero,
  and so neither guarded division of \<open>calculateRequirements\<close> meets a zero divisor:
  the function returns a result for every width, height and environment.
\<close>

theorem supported_pitch_no_zero_division:
  assumes "pitchMm \<in> set PIXEL_PITCHES"
  shows "1 \<le> pixelsPerCabinet pitchMm \<and> pitchMm \<noteq> 0 \<and>
         (\<exists>r. calculateRequirements widthMm heightMm pitchMm env = Some r)"
  using pixelsPerCabinet_supported [OF assms] supported_pitch_positive [OF assms]
    calculateRequirements_supported [OF assms, of widthMm heightMm env]
  by simp

theorem supported_pitch_no_zero_division_witness:
  "(2.5::rat) \<in> set PIXEL_PITCHES \<and> pixelsPerCabinet 2.5 = 80000 \<and> 1 \<le> pixelsPerCabinet 2.5 \<and>
   calculateRequirements 5000 3000 2.5 indoor \<noteq> None"
proof -
  have mem: "(2.5::rat) \<in> set PIXEL_PITCHES" by (simp add: PIXEL_PITCHES_def)
  have val: "pixelsPerCabinet 2.5 = 80000" by (simp add: pixelsPerCabinet_def Math_round_def)
  from supported_pitch_no_zero_division [OF mem, of 5000 3000 indoor] mem val
  show ?thesis by auto
qed

text \<open>
  C10: at a supported pitch the indoor and the outdoor run on the same dimensions agree
  on the resolution, its class, the pixel total, the cabinet grid, the LAN ports, the
  controller, the area and the pitch; the environment reaches the power, current,
  circuit and breaker fields only.
\<close>

theorem environment_only_electrical:
  assumes "pitchMm \<in> set PIXEL_PITCHES"
  shows "\<exists>ri ro. calculateRequirements widthMm heightMm pitchMm indoor = Some ri \<and>
           calculateRequirements widthMm heightMm pitchMm outdoor = Some ro \<and>
           resolutionWidth ri = resolutionWidth ro \<and>
           resolutionHeight ri = resolutionHeight ro \<and>
           resolutionClass ri = resolutionClass ro \<and>
           totalPixels ri = totalPixels ro \<and>
           cabinetsWidth ri = cabinetsWidth ro \<and>
           cabinetsHeight ri = cabinetsHeight ro \<and>
           totalCabinets ri = totalCabinets ro \<and>
           lanPorts ri = lanPorts ro \<and>
           controller ri = controller ro \<and>
           areaSqM ri = areaSqM ro \<and>
           pitch ri = pitch ro"
proof -
  obtain ri where ri: "calculateRequirements widthMm heightMm pitchMm indoor = Some ri"
    using calculateRequirements_supported [OF assms] by blast
  obtain ro where ro: "calculateRequirements widthMm heightMm pitchMm outdoor = Some ro"
    using calculateRequirements_supported [OF assms] by blast
  show ?thesis
    using ri ro calc_geometry [OF ri] calc_geometry [OF ro] calc_environment_free [OF ri ro]
    by simp
qed

theorem environment_only_electrical_witness:
  "(2.5::rat) \<in> set PIXEL_PITCHES \<and>
   lanPorts (the (calculateRequirements 5000 3000 2.5 outdoor)) = 5 \<and>
   controller (the (calculateRequirements 5000 3000 2.5 outdoor)) = ''VX16s'' \<and>
   totalCabinets (the (calculateRequirements 5000 3000 2.5 outdoor)) = 30"
proof -
  have mem: "(2.5::rat) \<in> set PIXEL_PITCHES" by (simp add: PIXEL_PITCHES_def)
  from environment_only_electrical [OF mem, of 5000 3000] mem reference_wall_run show ?thesis
    by auto
qed

text \<open>
  The guard of the sweep: with a width or a height that is zero or blank it returns no
  result, and \<open>calculateRequirements\<close> is not called.
\<close>

lemma results_zero_or_blank:
  "Number width = 0 \<or> Number height = 0 \<Longrightarrow> results width height env = []"
  by (auto simp: results_def Let_def)

text \<open>
  C5: a width or height that is not positive is to be rejected before any computation,
  with no result produced. The guard stops zero and blank dimensions only. A width of
  \<open>-500\<close> mm passes it: the sweep calls \<open>calculateRequirements\<close> and returns
  seven results, each with \<open>-1\<close> column of cabinets and \<open>-3\<close> cabinets in all.
\<close>

theorem results_negative_width:
  "map (map_option cabinetsWidth) (results (Entered (- 500)) (Entered 3000) indoor) =
     [Some (- 1), Some (- 1), Some (- 1), Some (- 1), Some (- 1), Some (- 1), Some (- 1)] \<and>
   map (map_option totalCabinets) (results (Entered (- 500)) (Entered 3000) indoor) =
     [Some (- 3), Some (- 3), Some (- 3), Some (- 3), Some (- 3), Some (- 3), Some (- 3)]"
  by code_simp

section \<open>A finer pitch never needs less\<close>

text \<open>
  Rounding is monotone, so a smaller pitch gives at least as many pixels along each side
  of the wall and of a cabinet; more pixels in a cabinet leave room for no more cabinets
  on a port, and the same cabinets then need at least as many ports.
\<close>

lemma Math_round_mono:
  "a \<le> b \<Longrightarrow> Math_round a \<le> Math_round b"
  by (simp add: Math_round_def floor_mono)

lemma Math_round_nonneg:
  "0 \<le> a \<Longrightarrow> 0 \<le> Math_round a"
  by (simp add: Math_round_def)

lemma quotient_finer:
  fixes a :: rat
  assumes "0 < a" and "0 < p1" and "p1 < p2"
  shows "a / p2 \<le> a / p1" and "0 \<le> a / p2"
  using assms by (simp_all add: frac_le)

lemma rounded_product_finer:
  assumes "0 < a" and "0 < b" and "0 < p1" and "p1 < p2"
  shows "Math_round (a / p2) * Math_round (b / p2) \<le> Math_round (a / p1) * Math_round (b / p1)"
proof (rule mult_mono)
  show "Math_round (a / p2) \<le> Math_round (a / p1)"
    by (rule Math_round_mono) (rule quotient_finer [OF assms(1,3,4)])
  show "Math_round (b / p2) \<le> Math_round (b / p1)"
    by (rule Math_round_mono) (rule quotient_finer [OF assms(2,3,4)])
  have "0 \<le> Math_round (a / p2)"
    by (rule Math_round_nonneg) (rule quotient_finer [OF assms(1,3,4)])
  also have "\<dots> \<le> Math_round (a / p1)"
    by (rule Math_round_mono) (rule quotient_finer [OF assms(1,3,4)])
  finally show "0 \<le> Math_round (a / p1)" .
  show "0 \<le> Math_round (b / p2)"
    by (rule Math_round_nonneg) (rule quotient_finer [OF assms(2,3,4)])
qed

lemma pixelsPerCabinet_finer:
  assumes "0 < p1" and "p1 < p2"
  shows "pixelsPerCabinet p2 \<le> pixelsPerCabinet p1"
  unfolding pixelsPerCabinet_def
  by (rule rounded_product_finer) (use assms in simp_all)

lemma port_capacity_finer:
  assumes "0 < p1" and "p1 < p2" and "0 < pixelsPerCabinet p2"
  shows "max 1 (Math_floor (SAFE_PIXELS_PER_PORT / of_int (pixelsPerCabinet p1)))
       \<le> max 1 (Math_floor (SAFE_PIXELS_PER_PORT / of_int (pixelsPerCabinet p2)))"
proof -
  have le: "pixelsPerCabinet p2 \<le> pixelsPerCabinet p1"
    by (rule pixelsPerCabinet_finer [OF assms(1,2)])
  have pos: "0 < pixelsPerCabinet p1" using le assms(3) by simp
  have "SAFE_PIXELS_PER_PORT / of_int (pixelsPerCabinet p1)
      \<le> SAFE_PIXELS_PER_PORT / of_int (pixelsPerCabinet p2)"
    using le pos assms(3)
    by (intro divide_left_mono)
       (simp_all add: SAFE_PIXELS_PER_PORT_def MAX_PIXELS_PER_PORT_def SAFE_CAPACITY_PERCENTAGE_def)
  then have "Math_floor (SAFE_PIXELS_PER_PORT / of_int (pixelsPerCabinet p1))
      \<le> Math_floor (SAFE_PIXELS_PER_PORT / of_int (pixelsPerCabinet p2))"
    by (simp add: Math_floor_def floor_mono)
  then show ?thesis by simp
qed

lemma ports_fewer_with_capacity:
  assumes "0 \<le> n" and "1 \<le> c1" and "c1 \<le> c2"
  shows "Math_ceil (of_int n / of_int c2) \<le> Math_ceil (of_int n / of_int c1)"
proof -
  have "(of_int n :: rat) / of_int c2 \<le> of_int n / of_int c1"
    using assms by (intro divide_left_mono) simp_all
  then show ?thesis by (simp add: Math_ceil_def ceiling_mono)
qed

lemma cabinets_nonneg:
  assumes "0 < w" and "0 < h"
  shows "0 \<le> Math_ceil (w / 500) * Math_ceil (h / 1000)"
proof -
  have "0 \<le> Math_ceil (w / 500)" "0 \<le> Math_ceil (h / 1000)"
    using assms by (simp_all add: Math_ceil_def)
  then show ?thesis by simp
qed

text \<open>
  C8: for a wall of positive width and height and two supported pitches \<open>p1 < p2\<close>,
  the run at the finer pitch \<open>p1\<close> has at least the pixel total, the LAN ports and
  the circuits of the run at \<open>p2\<close>, in the same environment.
\<close>

theorem finer_pitch_monotone:
  assumes "0 < widthMm" and "0 < heightMm"
    and "p1 \<in> set PIXEL_PITCHES" and "p2 \<in> set PIXEL_PITCHES" and "p1 < p2"
  shows "\<exists>r1 r2. calculateRequirements widthMm heightMm p1 env = Some r1 \<and>
           calculateRequirements widthMm heightMm p2 env = Some r2 \<and>
           totalPixels r2 \<le> totalPixels r1 \<and>
           lanPorts r2 \<le> lanPorts r1 \<and>
           circuits220v r2 \<le> circuits220v r1"
proof -
  obtain r1 where r1: "calculateRequirements widthMm heightMm p1 env = Some r1"
    using calculateRequirements_supported [OF assms(3)] by blast
  obtain r2 where r2: "calculateRequirements widthMm heightMm p2 env = Some r2"
    using calculateRequirements_supported [OF assms(4)] by blast
  have p1: "0 < p1" by (rule supported_pitch_positive [OF assms(3)])
  have ppc2: "0 < pixelsPerCabinet p2"
    using pixelsPerCabinet_supported [OF assms(4)] by simp
  have cab: "totalCabinets r1 = totalCabinets r2"
    by (simp only: calc_geometry(4) [OF r1] calc_geometry(4) [OF r2])
  have n: "0 \<le> totalCabinets r2"
    unfolding calc_geometry(4) [OF r2] by (rule cabinets_nonneg [OF assms(1,2)])
  have pixels: "totalPixels r2 \<le> totalPixels r1"
    unfolding calc_geometry(7) [OF r1] calc_geometry(7) [OF r2]
    by (rule rounded_product_finer [OF assms(1,2) p1 assms(5)])
  have ports: "lanPorts r2 \<le> lanPorts r1"
    unfolding calc_lanPorts [OF r1] calc_lanPorts [OF r2] cab
    by (rule ports_fewer_with_capacity [OF n _ port_capacity_finer [OF p1 assms(5) ppc2]]) simp
  have circuits: "circuits220v r2 \<le> circuits220v r1"
    by (simp only: calc_circuits [OF r1] calc_circuits [OF r2] cab order_refl)
  from r1 r2 pixels ports circuits show ?thesis by blast
qed


theorem finer_pitch_monotone_witness:
  "(0::rat) < 5000 \<and> (0::rat) < 3000 \<and> (1.25::rat) \<in> set PIXEL_PITCHES \<and>
   (2.5::rat) \<in> set PIXEL_PITCHES \<and> (1.25::rat) < 2.5 \<and>
   totalPixels (the (calculateRequirements 5000 3000 2.5 indoor))
     \<le> totalPixels (the (calculateRequirements 5000 3000 1.25 indoor)) \<and>
   lanPorts (the (calculateRequirements 5000 3000 2.5 indoor))
     \<le> lanPorts (the (calculateRequirements 5000 3000 1.25 indoor)) \<and>
   circuits220v (the (calculateRequirements 5000 3000 2.5 indoor))
     \<le> circuits220v (the (calculateRequirements 5000 3000 1.25 indoor))"
proof -
  have h: "(0::rat) < 5000" "(0::rat) < 3000" "(1.25::rat) \<in> set PIXEL_PITCHES"
    "(2.5::rat) \<in> set PIXEL_PITCHES" "(1.25::rat) < 2.5"
    by (simp_all add: PIXEL_PITCHES_def)
  from finer_pitch_monotone [OF h, of indoor] h show ?thesis by auto
qed


section \<open>Breaker selection\<close>

text \<open>
  On an ascending table the first element that satisfies a predicate is the least such
  element; with no zero in the table, \<open>js_or\<close> falls back to its second argument
  only when no element qualifies.
\<close>

lemma find_sorted_least:
  assumes "sorted xs" and "List.find P xs = Some r"
  shows "r \<in> set xs \<and> P r \<and> (\<forall>s\<in>set xs. P s \<longrightarrow> r \<le> s)"
  using assms
proof (induction xs)
  case Nil
  then show ?case by simp
next
  case (Cons x xs)
  show ?case
  proof (cases "P x")
    case True
    then have "r = x" using Cons.prems(2) by simp
    then show ?thesis using True Cons.prems(1) by auto
  next
    case False
    then have "List.find P xs = Some r" using Cons.prems(2) by simp
    moreover have "sorted xs" using Cons.prems(1) by simp
    ultimately have "r \<in> set xs \<and> P r \<and> (\<forall>s\<in>set xs. P s \<longrightarrow> r \<le> s)"
      by (rule Cons.IH [rotated])
    then show ?thesis using False by auto
  qed
qed

lemma find_sorted_Min:
  fixes xs :: "rat list"
  assumes "sorted xs" and "\<exists>s\<in>set xs. P s"
  shows "List.find P xs = Some (Min {s \<in> set xs. P s})"
proof -
  have "List.find P xs \<noteq> None"
    using assms(2) by (auto simp: find_None_iff)
  then obtain r where r: "List.find P xs = Some r" by blast
  have least: "r \<in> set xs \<and> P r \<and> (\<forall>s\<in>set xs. P s \<longrightarrow> r \<le> s)"
    by (rule find_sorted_least [OF assms(1) r])
  have "Min {s \<in> set xs. P s} = r"
    using least by (intro Min_eqI) auto
  with r show ?thesis by simp
qed

lemma js_or_find_first:
  assumes "sorted xs" and "0 \<notin> set xs"
  shows "js_or (List.find P xs) d =
           (if \<exists>s\<in>set xs. P s then Min {s \<in> set xs. P s} else d)"
proof (cases "\<exists>s\<in>set xs. P s")
  case True
  have fin: "finite {s \<in> set xs. P s}" by simp
  have ne: "{s \<in> set xs. P s} \<noteq> {}" using True by auto
  have "Min {s \<in> set xs. P s} \<in> {s \<in> set xs. P s}"
    by (rule Min_in [OF fin ne])
  then have "Min {s \<in> set xs. P s} \<noteq> 0" using assms(2) by auto
  then show ?thesis
    using True find_sorted_Min [OF assms(1) True] by (simp add: js_or_def)
next
  case False
  then have "List.find P xs = None" by (auto simp: find_None_iff)
  then show ?thesis using False by (simp add: js_or_def)
qed

lemma STANDARD_BREAKER_SIZES_sorted:
  "sorted STANDARD_BREAKER_SIZES"
  "0 \<notin> set STANDARD_BREAKER_SIZES"
  "STANDARD_BREAKER_SIZES ! (length STANDARD_BREAKER_SIZES - 1) = 1200"
  by (simp_all add: STANDARD_BREAKER_SIZES_def)

text \<open>
  C6: at every supported pitch the main breaker is the smallest size of the table that is
  at least 1.25 times the current at 220 V, and 1200, the largest size, when no size of
  the table qualifies; the function returns a result in both cases.
\<close>

theorem mainBreakerSize_smallest:
  assumes "pitchMm \<in> set PIXEL_PITCHES"
  shows "\<exists>r. calculateRequirements widthMm heightMm pitchMm env = Some r \<and>
           mainBreakerSize r =
             (if \<exists>s\<in>set STANDARD_BREAKER_SIZES. amps220v r * 1.25 \<le> s
              then Min {s \<in> set STANDARD_BREAKER_SIZES. amps220v r * 1.25 \<le> s}
              else 1200) \<and>
           STANDARD_BREAKER_SIZES =
             [20, 30, 40, 50, 60, 70, 80, 100, 125, 150, 175, 200, 225, 250, 300, 350, 400,
              500, 600, 800, 1000, 1200]"
proof -
  obtain r where r: "calculateRequirements widthMm heightMm pitchMm env = Some r"
    using calculateRequirements_supported [OF assms] by blast
  have "mainBreakerSize r =
     (if \<exists>s\<in>set STANDARD_BREAKER_SIZES. amps220v r * 1.25 \<le> s
      then Min {s \<in> set STANDARD_BREAKER_SIZES. amps220v r * 1.25 \<le> s}
      else 1200)"
    by (simp only: calc_mainBreakerSize [OF r] STANDARD_BREAKER_SIZES_sorted(3)
        js_or_find_first [OF STANDARD_BREAKER_SIZES_sorted(1,2)])
  with r show ?thesis
    by (simp add: STANDARD_BREAKER_SIZES_def)
qed


lemma scenario_large_run:
  "map_option mainBreakerSize (calculateRequirements 100000 100000 2.5 indoor) = Some 1200 \<and>
   map_option amps220v (calculateRequirements 100000 100000 2.5 indoor) = Some (250000 / 11)"
  by code_simp

theorem mainBreakerSize_smallest_witness:
  "(2.5::rat) \<in> set PIXEL_PITCHES \<and>
   Min {s \<in> set STANDARD_BREAKER_SIZES. (7500 / 220) * 1.25 \<le> s} = 50 \<and>
   mainBreakerSize (the (calculateRequirements 100000 100000 2.5 indoor)) = 1200"
proof -
  have mem: "(2.5::rat) \<in> set PIXEL_PITCHES" by (simp add: PIXEL_PITCHES_def)
  have ex: "\<exists>s\<in>set STANDARD_BREAKER_SIZES. (7500 / 220) * 1.25 \<le> s"
    by (simp add: STANDARD_BREAKER_SIZES_def)
  have a: "Min {s \<in> set STANDARD_BREAKER_SIZES. (7500 / 220) * 1.25 \<le> s} = 50"
  proof -
    obtain r where r: "calculateRequirements 5000 3000 2.5 indoor = Some r"
      and m: "mainBreakerSize r =
             (if \<exists>s\<in>set STANDARD_BREAKER_SIZES. amps220v r * 1.25 \<le> s
              then Min {s \<in> set STANDARD_BREAKER_SIZES. amps220v r * 1.25 \<le> s}
              else 1200)"
      using mainBreakerSize_smallest [OF mem, of 5000 3000 indoor] by blast
    have amps: "amps220v r = 7500 / 220" and size: "mainBreakerSize r = 50"
      using r unfolding reference_wall_run by auto
    show ?thesis
      using m ex by (simp only: amps size if_True)
  qed
  have b: "mainBreakerSize (the (calculateRequirements 100000 100000 2.5 indoor)) = 1200"
    using mainBreakerSize_smallest [OF mem, of 100000 100000 indoor] scenario_large_run
    by auto
  from mem a b show ?thesis by simp
qed


section \<open>Properties of the distribution blocks\<close>

declare mccb_loop.simps [simp del]

lemma mccb_loop_step:
  assumes "6 * k < length cs"
  shows "mccb_loop ar cs (6 * k) acc = mccb_loop ar cs (6 * Suc k) (acc @ [block ar cs k])"
proof -
  have i: "6 * k + CIRCUITS_PER_MCCB = 6 * Suc k"
    by (simp add: CIRCUITS_PER_MCCB_def)
  have sl: "slice cs (6 * k) (6 * Suc k) = take 6 (drop (6 * k) cs)"
    by (simp add: slice_def)
  have d: "6 * k div CIRCUITS_PER_MCCB + 1 = k + 1"
    by (simp add: CIRCUITS_PER_MCCB_def)
  show ?thesis
    by (subst mccb_loop.simps) (simp only: assms if_True Let_def i sl d block_def)
qed

lemma mccb_loop_stop:
  assumes "length cs \<le> 6 * k"
  shows "mccb_loop ar cs (6 * k) acc = acc"
  using assms by (subst mccb_loop.simps) simp

lemma mccb_loop_blocks:
  "mccb_loop ar cs (6 * k) acc = acc @ map (block ar cs) [k..<(length cs + 5) div 6]"
proof (induction "(length cs + 5) div 6 - k" arbitrary: k acc)
  case 0
  then have "length cs \<le> 6 * k" by simp
  then show ?case using 0 by (simp add: mccb_loop_stop)
next
  case (Suc m)
  then have lt: "k < (length cs + 5) div 6" and m: "m = (length cs + 5) div 6 - Suc k"
    by simp_all
  then have "6 * k < length cs" by simp
  then have "mccb_loop ar cs (6 * k) acc = mccb_loop ar cs (6 * Suc k) (acc @ [block ar cs k])"
    by (rule mccb_loop_step)
  also have "\<dots> = (acc @ [block ar cs k]) @ map (block ar cs) [Suc k..<(length cs + 5) div 6]"
    by (rule Suc.hyps(1) [OF m])
  also have "\<dots> = acc @ map (block ar cs) [k..<(length cs + 5) div 6]"
    using lt by (simp add: upt_conv_Cons)
  finally show ?case .
qed

lemma mccbGroups_blocks:
  "mccbGroups ar cs = map (block ar cs) [0..<(length cs + 5) div 6]"
  using mccb_loop_blocks [of ar cs 0 "[]"] by (simp add: mccbGroups_def)

lemma concat_chunks:
  "concat (map (\<lambda>k. take n (drop (n * k) xs)) [0..<m]) = take (n * m) xs"
proof (induction m)
  case 0
  show ?case by simp
next
  case (Suc m)
  have "take (n * m) xs @ take n (drop (n * m) xs) = take (n * m + n) xs"
    by (simp add: take_add)
  with Suc show ?case by (simp add: add.commute)
qed

lemma standardSizes_sorted:
  "sorted standardSizes" "0 \<notin> set standardSizes"
  by (simp_all add: standardSizes_def)

lemma block_fields:
  "mccb_id (block ar cs k) = k + 1"
  "mccb_circuits (block ar cs k) = take 6 (drop (6 * k) cs)"
  "mccb_totalAmps (block ar cs k) =
     foldl (\<lambda>sum c. js_add ar sum (circuit_amps c)) (js_lit ar 0) (mccb_circuits (block ar cs k))"
  "mccb_size (block ar cs k) =
     js_or (List.find
       (\<lambda>s. js_ge ar (js_lit ar s) (js_mul ar (mccb_totalAmps (block ar cs k)) (js_lit ar 1.25)))
       standardSizes) 400"
  by (simp_all only: block_def MccbGroup.select_convs)

lemma block_size:
  "mccb_size (block ar cs k) =
     (if \<exists>s\<in>set standardSizes.
           js_ge ar (js_lit ar s) (js_mul ar (mccb_totalAmps (block ar cs k)) (js_lit ar 1.25))
      then Min {s \<in> set standardSizes.
             js_ge ar (js_lit ar s) (js_mul ar (mccb_totalAmps (block ar cs k)) (js_lit ar 1.25))}
      else 400)"
  by (simp only: block_fields(4) js_or_find_first [OF standardSizes_sorted])

lemma chunk_length:
  assumes "k < (length cs + 5) div 6"
  shows "1 \<le> length (take 6 (drop (6 * k) cs))"
    and "length (take 6 (drop (6 * k) cs)) \<le> 6"
    and "k + 1 < (length cs + 5) div 6 \<Longrightarrow> length (take 6 (drop (6 * k) cs)) = 6"
  using assms by auto

text \<open>
  C7: in every arithmetic of the numbers, \<open>mccbGroups\<close> cuts the circuits, in
  order, into consecutive chunks: block \<open>k\<close> (from zero) has id \<open>k + 1\<close> and
  holds the circuits at positions \<open>6 * k\<close> up to \<open>6 * k + 5\<close>; every block
  holds between one and six circuits and every block but the last exactly six; the
  blocks together are the input. The total current of a block is the sum of the currents
  of its circuits, added from zero in their order; its breaker is the smallest size of
  the table that is at least 1.25 times that total, and 400 when none is. Three
  circuits give one block that holds all three.
\<close>

theorem mccbGroups_chunks:
  "length (mccbGroups ar cs) = (length cs + 5) div 6 \<and>
   concat (map mccb_circuits (mccbGroups ar cs)) = cs \<and>
   (\<forall>k<length (mccbGroups ar cs).
      mccb_id (mccbGroups ar cs ! k) = k + 1 \<and>
      mccb_circuits (mccbGroups ar cs ! k) = take 6 (drop (6 * k) cs) \<and>
      1 \<le> length (mccb_circuits (mccbGroups ar cs ! k)) \<and>
      length (mccb_circuits (mccbGroups ar cs ! k)) \<le> 6 \<and>
      (k + 1 < length (mccbGroups ar cs) \<longrightarrow>
         length (mccb_circuits (mccbGroups ar cs ! k)) = 6) \<and>
      mccb_totalAmps (mccbGroups ar cs ! k) =
        foldl (\<lambda>sum c. js_add ar sum (circuit_amps c)) (js_lit ar 0)
          (mccb_circuits (mccbGroups ar cs ! k)) \<and>
      mccb_size (mccbGroups ar cs ! k) =
        (if \<exists>s\<in>set standardSizes.
              js_ge ar (js_lit ar s)
                (js_mul ar (mccb_totalAmps (mccbGroups ar cs ! k)) (js_lit ar 1.25))
         then Min {s \<in> set standardSizes.
                js_ge ar (js_lit ar s)
                  (js_mul ar (mccb_totalAmps (mccbGroups ar cs ! k)) (js_lit ar 1.25))}
         else 400)) \<and>
   standardSizes = [32, 40, 63, 80, 100, 125, 160, 200, 250, 400] \<and>
   (length cs = 3 \<longrightarrow>
      length (mccbGroups ar cs) = 1 \<and> mccb_circuits (mccbGroups ar cs ! 0) = cs)"
proof -
  let ?m = "(length cs + 5) div 6"
  have len: "length (mccbGroups ar cs) = ?m"
    by (simp add: mccbGroups_blocks)
  have nth: "mccbGroups ar cs ! k = block ar cs k" if "k < ?m" for k
    using that by (simp add: mccbGroups_blocks)
  have "map mccb_circuits (mccbGroups ar cs) = map (\<lambda>k. take 6 (drop (6 * k) cs)) [0..<?m]"
    by (simp add: mccbGroups_blocks block_fields(2))
  then have cat: "concat (map mccb_circuits (mccbGroups ar cs)) = cs"
    by (simp add: concat_chunks)
  have each: "mccb_id (mccbGroups ar cs ! k) = k + 1 \<and>
      mccb_circuits (mccbGroups ar cs ! k) = take 6 (drop (6 * k) cs) \<and>
      1 \<le> length (mccb_circuits (mccbGroups ar cs ! k)) \<and>
      length (mccb_circuits (mccbGroups ar cs ! k)) \<le> 6 \<and>
      (k + 1 < length (mccbGroups ar cs) \<longrightarrow>
         length (mccb_circuits (mccbGroups ar cs ! k)) = 6) \<and>
      mccb_totalAmps (mccbGroups ar cs ! k) =
        foldl (\<lambda>sum c. js_add ar sum (circuit_amps c)) (js_lit ar 0)
          (mccb_circuits (mccbGroups ar cs ! k)) \<and>
      mccb_size (mccbGroups ar cs ! k) =
        (if \<exists>s\<in>set standardSizes.
              js_ge ar (js_lit ar s)
                (js_mul ar (mccb_totalAmps (mccbGroups ar cs ! k)) (js_lit ar 1.25))
         then Min {s \<in> set standardSizes.
                js_ge ar (js_lit ar s)
                  (js_mul ar (mccb_totalAmps (mccbGroups ar cs ! k)) (js_lit ar 1.25))}
         else 400)" if k: "k < length (mccbGroups ar cs)" for k
  proof -
    have km: "k < ?m" using k len by simp
    have c: "mccb_circuits (block ar cs k) = take 6 (drop (6 * k) cs)"
      by (rule block_fields(2))
    have l: "1 \<le> length (mccb_circuits (block ar cs k))"
      "length (mccb_circuits (block ar cs k)) \<le> 6"
      "k + 1 < ?m \<longrightarrow> length (mccb_circuits (block ar cs k)) = 6"
      unfolding c using chunk_length [OF km] by blast+
    show ?thesis
      unfolding nth [OF km] len
      using l c block_fields(1,3) [of ar cs k] block_size [of ar cs k] by blast
  qed
  have three: "length (mccbGroups ar cs) = 1 \<and> mccb_circuits (mccbGroups ar cs ! 0) = cs"
    if "length cs = 3"
    using that by (simp add: mccbGroups_blocks block_fields(2))
  have table: "standardSizes = [32, 40, 63, 80, 100, 125, 160, 200, 250, 400]"
    by (simp add: standardSizes_def)
  from len cat each three table show ?thesis
    by blast
qed



lemma three_circuits_run:
  "map mccb_totalAmps (mccbGroups exact three_circuits) = [30] \<and>
   map mccb_size (mccbGroups exact three_circuits) = [40]"
  by code_simp


theorem mccbGroups_chunks_witness:
  "length three_circuits = 3 \<and>
   length (mccbGroups exact three_circuits) = 1 \<and>
   mccb_circuits (mccbGroups exact three_circuits ! 0) = three_circuits \<and>
   mccb_id (mccbGroups exact three_circuits ! 0) = 1 \<and>
   mccb_totalAmps (mccbGroups exact three_circuits ! 0) = 10 + 12 + 8 \<and>
   mccb_size (mccbGroups exact three_circuits ! 0) = 40 \<and>
   Min {s \<in> set standardSizes. 30 * 1.25 \<le> s} = 40"
proof -
  let ?g = "mccbGroups exact three_circuits ! 0"
  have three: "length three_circuits = 3" by (simp add: three_circuits_def)
  have len: "length (mccbGroups exact three_circuits) = 1"
    and all: "mccb_circuits ?g = three_circuits"
    using mccbGroups_chunks [of exact three_circuits] three by blast+
  have k: "0 < length (mccbGroups exact three_circuits)" using len by simp
  have i: "mccb_id ?g = 0 + 1"
    and t: "mccb_totalAmps ?g =
      foldl (\<lambda>sum c. js_add exact sum (circuit_amps c)) (js_lit exact 0) (mccb_circuits ?g)"
    and z: "mccb_size ?g =
        (if \<exists>s\<in>set standardSizes.
              js_ge exact (js_lit exact s) (js_mul exact (mccb_totalAmps ?g) (js_lit exact 1.25))
         then Min {s \<in> set standardSizes.
                js_ge exact (js_lit exact s)
                  (js_mul exact (mccb_totalAmps ?g) (js_lit exact 1.25))}
         else 400)"
    using mccbGroups_chunks [of exact three_circuits] k by blast+
  have total: "mccb_totalAmps ?g = 30"
    unfolding t all by (simp add: three_circuits_def exact_def)
  have size: "mccb_size ?g = 40"
    using three_circuits_run len by (cases "mccbGroups exact three_circuits") simp_all
  have ex: "\<exists>s\<in>set standardSizes. 30 * 1.25 \<le> s"
    by (simp add: standardSizes_def)
  have m: "Min {s \<in> set standardSizes. 30 * 1.25 \<le> s} = 40"
    using z ex unfolding total size by (simp add: exact_def)
  from three len all i total size m show ?thesis by simp
qed


text \<open>
  The rounding of the doubles decides the breaker of \<open>uneven_circuits\<close>: the five
  amperages add up to 200 exactly, which the 250 A breaker covers, but the rounded
  running sum is \<open>200 + 1 / 2 ^ 45\<close> and the breaker is 400 A.
\<close>

lemma round53_amps:
  "round53 (9000 / 220) = 1439360676361309 / 35184372088832"
  "round53 (8750 / 220) = 5597513741405091 / 140737488355328"
  by code_simp+

lemma round53_literals:
  "round53 0 = 0"
  "round53 1.25 = 1.25"
  "round53 32 = 32" "round53 40 = 40" "round53 63 = 63" "round53 80 = 80" "round53 100 = 100"
  "round53 125 = 125" "round53 160 = 160" "round53 200 = 200" "round53 250 = 250"
  "round53 400 = 400"
  by code_simp+

lemma round53_sums:
  "round53 (0 + 1439360676361309 / 35184372088832) = 1439360676361309 / 35184372088832"
  "round53 (1439360676361309 / 35184372088832 + 5597513741405091 / 140737488355328) =
     1419369555856291 / 17592186044416"
  "round53 (1419369555856291 / 17592186044416 + 5597513741405091 / 140737488355328) =
     4238117547063855 / 35184372088832"
  "round53 (4238117547063855 / 35184372088832 + 5597513741405091 / 140737488355328) =
     704686997801891 / 4398046511104"
  "round53 (704686997801891 / 4398046511104 + 5597513741405091 / 140737488355328) =
     200 + 1 / 2 ^ 45"
  "round53 ((200 + 1 / 2 ^ 45) * 1.25) = 250 + 1 / 2 ^ 45"
  by code_simp+

lemma uneven_total:
  "foldl (\<lambda>sum c. js_add binary64 sum (circuit_amps c)) (js_lit binary64 0) uneven_circuits =
     200 + 1 / 2 ^ 45"
  by (simp only: uneven_circuits_def binary64_def foldl.simps arithmetic.select_convs
      Circuit.select_convs round53_amps round53_literals round53_sums)

lemma uneven_circuits_run:
  "mccbGroups binary64 uneven_circuits =
     [\<lparr>mccb_id = 1, mccb_circuits = uneven_circuits, mccb_totalAmps = 200 + 1 / 2 ^ 45,
       mccb_size = 400\<rparr>]"
proof -
  have len: "length uneven_circuits = 5" by (simp add: uneven_circuits_def)
  have one: "mccbGroups binary64 uneven_circuits = [block binary64 uneven_circuits 0]"
    by (simp add: mccbGroups_blocks len)
  have c: "take 6 (drop (6 * 0) uneven_circuits) = uneven_circuits"
    by (simp add: len)
  have req: "js_mul binary64 (200 + 1 / 2 ^ 45) (js_lit binary64 1.25) = 250 + 1 / 2 ^ 45"
    by (simp only: binary64_def arithmetic.select_convs round53_literals round53_sums)
  have size: "js_or (List.find (\<lambda>s. js_ge binary64 (js_lit binary64 s) (250 + 1 / 2 ^ 45))
      standardSizes) 400 = 400"
    by (simp add: standardSizes_def binary64_def round53_literals js_or_def)
  show ?thesis
    unfolding one block_def c uneven_total req size by simp
qed

lemma uneven_circuits_exact:
  "map mccb_totalAmps (mccbGroups exact uneven_circuits) = [200] \<and>
   map mccb_size (mccbGroups exact uneven_circuits) = [250]"
  unfolding uneven_circuits_def round53_amps by code_simp


end
